theory Spec2Isabelle
  imports Complex_Main
begin

section \<open>Clickstream producer: a shallow embedding of \<^verbatim>\<open>src/producer/app.py\<close>\<close>

text \<open>
  The producer is a sequential Python script. Everything it takes from outside (the
  \<^verbatim>\<open>random\<close> module, \<^verbatim>\<open>uuid.uuid4\<close>, \<^verbatim>\<open>Faker.city\<close>, the wall clock, the file system) is
  made explicit in a \<open>world\<close> value that every operation takes and returns, and every raise
  of the source is an \<open>Inl\<close> result.

  Conventions of the embedding:
  \<^item> Python \<^verbatim>\<open>float\<close>s are exact rationals (\<open>rat\<close>); \<^verbatim>\<open>nan\<close> and \<^verbatim>\<open>inf\<close> are not represented.
  \<^item> An ISO-8601 UTC timestamp string with millisecond precision is the integer number of
    milliseconds since the epoch that it denotes; the clock is read in microseconds.
  \<^item> A \<^verbatim>\<open>dict\<close> is an association list in insertion order.
  \<^item> An output line is named by the library call that produced its text, so the text of a
    record line is whatever \<^verbatim>\<open>json.dumps\<close> returns for the payload and the arguments given.
  \<^item> Paths are POSIX paths. Writing to an opened file, printing and sleeping do not fail.
  \<^item> The model starts from the parsed arguments: \<^verbatim>\<open>argparse\<close> has already rejected what is
    not an \<^verbatim>\<open>int\<close> or a \<^verbatim>\<open>float\<close>.
\<close>

subsection \<open>Errors and the data model\<close>

datatype py_error = IndexError | ValueError | FileNotFoundError | OSError

datatype py_value = PyStr string | PyInt int | PyFloat rat

type_synonym iso_ms = int

type_synonym 'v dict = "(string \<times> 'v) list"

record ClickstreamEvent =
  event_id :: string
  event_ts :: iso_ms
  user_id :: string
  session_id :: string
  event_type :: string
  page :: string
  referrer :: string
  device :: "string dict"
  geo :: "string dict"
  attributes :: "py_value dict"

text \<open>\<^verbatim>\<open>dataclasses.asdict\<close> gives a fresh dict with exactly the fields of the dataclass;
  the payload is therefore a value of the same shape.\<close>

type_synonym payload = ClickstreamEvent

definition asdict :: "ClickstreamEvent \<Rightarrow> payload" where
  "asdict ev = ev"

record args =
  events :: int
  max_events_per_session :: int
  sleep_ms :: int
  out :: string
  dup_rate :: rat
  oo_rate :: rat

text \<open>A line of output: \<open>Print_args a\<close> is the text of
  \<^verbatim>\<open>print("producer starting with args:", a)\<close>, and \<open>Json_dumps p seps ascii\<close> is the text of
  \<^verbatim>\<open>json.dumps(p, separators=seps, ensure_ascii=ascii)\<close>.\<close>

datatype out_line = Print_args args | Json_dumps payload "string \<times> string" bool

subsection \<open>The world and the result type\<close>

record world =
  rand_tape :: "nat \<Rightarrow> nat"
  uuid_tape :: "nat \<Rightarrow> string"
  city_tape :: "nat \<Rightarrow> string"
  clock_tape :: "nat \<Rightarrow> int"
  makedirs_ok :: "string \<Rightarrow> bool"
  open_ok :: "string \<Rightarrow> bool"
  stdout :: "out_line list"
  out_file :: "out_line list option"
  out_closed :: bool
  slept_ms :: int

text \<open>
  \<^item> \<open>rand_tape\<close>: the raw draws still to come from the generator of the \<^verbatim>\<open>random\<close> module;
  \<^item> \<open>uuid_tape\<close>: the 32 hexadecimal digits of the \<^verbatim>\<open>uuid.uuid4()\<close> values still to come;
  \<^item> \<open>city_tape\<close>: the results of \<^verbatim>\<open>fake.city()\<close> still to come;
  \<^item> \<open>clock_tape\<close>: the readings of \<^verbatim>\<open>datetime.now(timezone.utc)\<close> still to come, in
    microseconds since the epoch;
  \<^item> \<open>makedirs_ok d\<close>: whether \<^verbatim>\<open>os.makedirs(d, exist_ok=True)\<close> succeeds for a non-empty \<open>d\<close>;
  \<^item> \<open>open_ok p\<close>: whether \<^verbatim>\<open>open(p, "w")\<close> succeeds;
  \<^item> \<open>stdout\<close>: the lines printed so far; \<open>out_file\<close>: the lines written to the output file
    (\<open>None\<close> while no file was opened), and \<open>out_closed\<close>: whether it was closed;
  \<^item> \<open>slept_ms\<close>: the total time passed to \<^verbatim>\<open>time.sleep\<close>, in milliseconds.
\<close>

text \<open>An operation takes the world and returns its result, a value or the exception it
  raised, with the world as it left it: what was printed or written before an exception
  stays printed or written.\<close>

type_synonym 'a io = "world \<Rightarrow> (py_error + 'a) \<times> world"

definition io_return :: "'a \<Rightarrow> 'a io" where
  "io_return x w = (Inr x, w)"

definition io_raise :: "py_error \<Rightarrow> 'a io" where
  "io_raise e w = (Inl e, w)"

definition io_bind :: "'a io \<Rightarrow> ('a \<Rightarrow> 'b io) \<Rightarrow> 'b io" where
  "io_bind m f w = (case m w of (Inl e, w') \<Rightarrow> (Inl e, w') | (Inr x, w') \<Rightarrow> f x w')"

subsection \<open>Library calls\<close>

text \<open>\<^verbatim>\<open>random._randbelow(n)\<close>, for \<open>n > 0\<close>: the next raw draw, reduced below \<open>n\<close>.\<close>

definition randbelow :: "nat \<Rightarrow> nat io" where
  "randbelow n w =
     (Inr (rand_tape w 0 mod n), w\<lparr>rand_tape := (\<lambda>i. rand_tape w (Suc i))\<rparr>)"

text \<open>\<^verbatim>\<open>random.random()\<close>: a multiple of \<open>2\<^sup>-\<^sup>5\<^sup>3\<close> in \<open>[0, 1)\<close>.\<close>

definition random :: "rat io" where
  "random = io_bind (randbelow 9007199254740992)
     (\<lambda>k. io_return (rat_of_nat k / 9007199254740992))"

text \<open>\<^verbatim>\<open>random.choice(seq)\<close>: \<^verbatim>\<open>IndexError\<close> on an empty sequence.\<close>

definition choice :: "'a list \<Rightarrow> 'a io" where
  "choice seq =
     (if seq = [] then io_raise IndexError
      else io_bind (randbelow (length seq)) (\<lambda>i. io_return (seq ! i)))"

text \<open>\<^verbatim>\<open>random.randint(a, b)\<close>: both ends included, \<^verbatim>\<open>ValueError\<close> on an empty range.\<close>

definition randint :: "int \<Rightarrow> int \<Rightarrow> int io" where
  "randint a b =
     (if b < a then io_raise ValueError
      else io_bind (randbelow (nat (b - a + 1))) (\<lambda>i. io_return (a + int i)))"

text \<open>\<^verbatim>\<open>random.uniform(a, b)\<close> is \<^verbatim>\<open>a + (b - a) * random()\<close>.\<close>

definition uniform :: "rat \<Rightarrow> rat \<Rightarrow> rat io" where
  "uniform a b = io_bind random (\<lambda>u. io_return (a + (b - a) * u))"

text \<open>\<^verbatim>\<open>round(x, 2)\<close>, with ties rounded up (Python rounds the binary float's exact value).\<close>

definition round2 :: "rat \<Rightarrow> rat" where
  "round2 x = rat_of_int (round (x * 100)) / 100"

fun accumulate :: "rat \<Rightarrow> rat list \<Rightarrow> rat list" where
  "accumulate acc [] = []"
| "accumulate acc (x # xs) = (acc + x) # accumulate (acc + x) xs"

text \<open>\<^verbatim>\<open>bisect.bisect_right(a, x)\<close> on a sorted list: the number of leading elements \<open>\<le> x\<close>.\<close>

fun bisect :: "rat list \<Rightarrow> rat \<Rightarrow> nat" where
  "bisect [] x = 0"
| "bisect (c # cs) x = (if x < c then 0 else Suc (bisect cs x))"

text \<open>\<^verbatim>\<open>random.choices(population, weights=weights, k=1)[0]\<close>: the cumulative weights are
  searched below their last entry (\<^verbatim>\<open>hi = n - 1\<close>).\<close>

definition choices1 :: "'a list \<Rightarrow> rat list \<Rightarrow> 'a io" where
  "choices1 population weights =
     (let cum_weights = accumulate 0 weights in
      if length cum_weights \<noteq> length population then io_raise ValueError
      else if cum_weights = [] then io_raise IndexError
      else if last cum_weights \<le> 0 then io_raise ValueError
      else io_bind random (\<lambda>u.
        io_return (population ! bisect (butlast cum_weights) (u * last cum_weights))))"

text \<open>\<^verbatim>\<open>uuid.uuid4().hex\<close> and \<^verbatim>\<open>str(uuid.uuid4())\<close>.\<close>

definition uuid4_hex :: "string io" where
  "uuid4_hex w = (Inr (uuid_tape w 0), w\<lparr>uuid_tape := (\<lambda>i. uuid_tape w (Suc i))\<rparr>)"

definition uuid_str :: "string \<Rightarrow> string" where
  "uuid_str h =
     take 8 h @ ''-'' @ take 4 (drop 8 h) @ ''-'' @ take 4 (drop 12 h) @ ''-''
       @ take 4 (drop 16 h) @ ''-'' @ drop 20 h"

definition fake_city :: "string io" where
  "fake_city w = (Inr (city_tape w 0), w\<lparr>city_tape := (\<lambda>i. city_tape w (Suc i))\<rparr>)"

text \<open>\<^verbatim>\<open>datetime.now(timezone.utc)\<close>, in microseconds, and
  \<^verbatim>\<open>isoformat(timespec="milliseconds")\<close>, which cuts the microseconds off.\<close>

definition datetime_now :: "int io" where
  "datetime_now w = (Inr (clock_tape w 0), w\<lparr>clock_tape := (\<lambda>i. clock_tape w (Suc i))\<rparr>)"

definition isoformat_ms :: "int \<Rightarrow> iso_ms" where
  "isoformat_ms us = us div 1000"

text \<open>Decimal digits of a natural number, for f-strings.\<close>

fun str_nat :: "nat \<Rightarrow> string" where
  "str_nat n =
     (if n < 10 then [''0123456789'' ! n]
      else str_nat (n div 10) @ [''0123456789'' ! (n mod 10)])"

definition str_int :: "int \<Rightarrow> string" where
  "str_int i = (if i < 0 then ''-'' @ str_nat (nat (- i)) else str_nat (nat i))"

text \<open>\<^verbatim>\<open>d[k] = v\<close> and \<^verbatim>\<open>d.update(kvs)\<close> on an insertion-ordered dict.\<close>

fun dict_set :: "'v dict \<Rightarrow> string \<Rightarrow> 'v \<Rightarrow> 'v dict" where
  "dict_set [] k v = [(k, v)]"
| "dict_set ((k', v') # d) k v =
     (if k' = k then (k, v) # d else (k', v') # dict_set d k v)"

fun dict_update :: "'v dict \<Rightarrow> 'v dict \<Rightarrow> 'v dict" where
  "dict_update d [] = d"
| "dict_update d ((k, v) # kvs) = dict_update (dict_set d k v) kvs"

definition keys :: "'v dict \<Rightarrow> string list" where
  "keys d = map fst d"

subsection \<open>Module constants and identifiers\<close>

definition EVENT_TYPES :: "string list" where
  "EVENT_TYPES = [''page_view'', ''add_to_cart'', ''purchase'']"

definition PAGES :: "string list" where
  "PAGES = [''/'', ''/search'', ''/product'', ''/cart'', ''/checkout'', ''/help'', ''/pricing'']"

definition BROWSERS :: "string list" where
  "BROWSERS = [''Chrome'', ''Firefox'', ''Safari'', ''Edge'']"

definition OSES :: "string list" where
  "OSES = [''iOS'', ''Android'', ''Windows'', ''macOS'', ''Linux'']"

definition COUNTRIES :: "string list" where
  "COUNTRIES = [''DE'', ''FR'', ''NL'', ''GB'', ''US'', ''PL'', ''SE'', ''ES'', ''IT'']"

definition iso_utc_now :: "iso_ms io" where
  "iso_utc_now = io_bind datetime_now (\<lambda>t. io_return (isoformat_ms t))"

definition new_user_id :: "string io" where
  "new_user_id = io_bind uuid4_hex (\<lambda>h. io_return (''usr_'' @ take 16 h))"

definition new_session_id :: "string io" where
  "new_session_id = io_bind uuid4_hex (\<lambda>h. io_return (''sess_'' @ take 16 h))"

subsection \<open>The event synthesizer\<close>

definition commerce_attrs :: "string \<Rightarrow> py_value dict \<Rightarrow> py_value dict io" where
  "commerce_attrs etype attrs =
     (if etype \<in> set [''add_to_cart'', ''purchase''] then
        io_bind (randint 1000 9999) (\<lambda>sku.
        io_bind (uniform 5 300) (\<lambda>price.
        io_bind (choice [''EUR'', ''USD'', ''GBP'']) (\<lambda>currency.
        io_bind (randint 1 3) (\<lambda>quantity.
        io_return (dict_update attrs
          [(''product_id'', PyStr (''sku_'' @ str_int sku)),
           (''price'', PyFloat (round2 price)),
           (''currency'', PyStr currency),
           (''quantity'', PyInt quantity)])))))
      else io_return attrs)"

definition purchase_attrs :: "string \<Rightarrow> py_value dict \<Rightarrow> py_value dict io" where
  "purchase_attrs etype attrs =
     (if etype = ''purchase'' then
        io_bind uuid4_hex (\<lambda>h.
        io_bind (choice [''card'', ''paypal'', ''klarna'']) (\<lambda>payment_method.
        io_return (dict_update attrs
          [(''order_id'', PyStr (''ord_'' @ take 12 h)),
           (''payment_method'', PyStr payment_method)])))
      else io_return attrs)"

definition make_event :: "string \<Rightarrow> string \<Rightarrow> string option \<Rightarrow> ClickstreamEvent io" where
  "make_event uid sid etype_arg =
     io_bind (case etype_arg of
                None \<Rightarrow> choice EVENT_TYPES
              | Some t \<Rightarrow> if t = [] then choice EVENT_TYPES else io_return t) (\<lambda>etype.
     io_bind (choice PAGES) (\<lambda>page0.
     io_bind (if etype \<in> set [''add_to_cart'', ''purchase'']
              then choice [''/product'', ''/cart'', ''/checkout'']
              else io_return page0) (\<lambda>pg.
     io_bind (choice [''direct'', ''google'', ''newsletter'', ''twitter'', ''linkedin'',
                      ''partner_site'']) (\<lambda>rf.
     io_bind (choice OSES) (\<lambda>os.
     io_bind (choice BROWSERS) (\<lambda>browser.
     io_bind (choice COUNTRIES) (\<lambda>country.
     io_bind fake_city (\<lambda>city.
     io_bind (choice [''A'', ''B'']) (\<lambda>variant.
     io_bind (choice [''brand'', ''summer_sale'', ''retargeting'', ''none'']) (\<lambda>campaign.
     io_bind (commerce_attrs etype
                [(''ab_test_variant'', PyStr variant), (''utm_campaign'', PyStr campaign)])
       (\<lambda>attrs1.
     io_bind (purchase_attrs etype attrs1) (\<lambda>attrs.
     io_bind uuid4_hex (\<lambda>h.
     io_bind iso_utc_now (\<lambda>ts.
     io_return \<lparr>event_id = uuid_str h, event_ts = ts, user_id = uid, session_id = sid,
                event_type = etype, page = pg, referrer = rf,
                device = [(''os'', os), (''browser'', browser)],
                geo = [(''country'', country), (''city'', city)],
                attributes = attrs\<rparr>))))))))))))))"

subsection \<open>The session generator\<close>

text \<open>The loop \<^verbatim>\<open>for _ in range(n - 1)\<close> of \<^verbatim>\<open>generate_session_events\<close>, on the list built so far.\<close>

fun session_rest ::
  "string \<Rightarrow> string \<Rightarrow> nat \<Rightarrow> ClickstreamEvent list \<Rightarrow> ClickstreamEvent list io" where
  "session_rest uid sid 0 evs = io_return evs"
| "session_rest uid sid (Suc k) evs =
     io_bind (choices1 [''page_view'', ''add_to_cart'', ''purchase'']
                [78 / 100, 18 / 100, 4 / 100]) (\<lambda>etype.
     io_bind (make_event uid sid (Some etype)) (\<lambda>ev.
     session_rest uid sid k (evs @ [ev])))"

definition generate_session_events :: "string \<Rightarrow> int \<Rightarrow> ClickstreamEvent list io" where
  "generate_session_events uid max_events =
     io_bind new_session_id (\<lambda>sid.
     io_bind (make_event uid sid (Some ''page_view'')) (\<lambda>ev0.
     io_bind (randint 1 max_events) (\<lambda>n.
     session_rest uid sid (nat (n - 1)) [ev0])))"

subsection \<open>Files and standard output\<close>

text \<open>\<^verbatim>\<open>posixpath.dirname\<close>: the path up to its last slash, without trailing slashes unless
  it consists of slashes only.\<close>

definition os_path_dirname :: "string \<Rightarrow> string" where
  "os_path_dirname p =
     (let head = rev (dropWhile (\<lambda>c. c \<noteq> CHR ''/'') (rev p)) in
      if head \<noteq> [] \<and> \<not> list_all (\<lambda>c. c = CHR ''/'') head
      then rev (dropWhile (\<lambda>c. c = CHR ''/'') (rev head))
      else head)"

text \<open>\<^verbatim>\<open>os.makedirs(name, exist_ok=True)\<close>: \<^verbatim>\<open>mkdir("")\<close> fails with \<^verbatim>\<open>ENOENT\<close> and the empty path is
  no directory, so the empty name raises \<^verbatim>\<open>FileNotFoundError\<close> whatever the file system holds.\<close>

definition os_makedirs :: "string \<Rightarrow> unit io" where
  "os_makedirs name w =
     (if name = [] then (Inl FileNotFoundError, w)
      else if makedirs_ok w name then (Inr (), w)
      else (Inl OSError, w))"

text \<open>\<^verbatim>\<open>open(path, "w", encoding="utf-8")\<close> on the output path: the file starts empty.\<close>

definition open_w :: "string \<Rightarrow> unit io" where
  "open_w path w =
     (if open_ok w path then (Inr (), w\<lparr>out_file := Some [], out_closed := False\<rparr>)
      else (Inl OSError, w))"

definition fh_write :: "out_line \<Rightarrow> unit io" where
  "fh_write line w =
     (Inr (), w\<lparr>out_file := Some ((case out_file w of None \<Rightarrow> [] | Some ls \<Rightarrow> ls) @ [line])\<rparr>)"

definition fh_close :: "world \<Rightarrow> world" where
  "fh_close w = w\<lparr>out_closed := True\<rparr>"

definition print_line :: "out_line \<Rightarrow> unit io" where
  "print_line line w = (Inr (), w\<lparr>stdout := stdout w @ [line]\<rparr>)"

definition time_sleep_ms :: "int \<Rightarrow> unit io" where
  "time_sleep_ms ms w = (Inr (), w\<lparr>slept_ms := slept_ms w + ms\<rparr>)"

subsection \<open>The emission loop of \<^verbatim>\<open>main\<close>\<close>

text \<open>The local variables of \<^verbatim>\<open>main\<close> that the loop updates. The handle \<^verbatim>\<open>out_fh\<close> is
  \<open>None\<close> for standard output and \<open>Some path\<close> for the file opened on \<open>path\<close>.\<close>

record locals =
  previously_emitted :: "payload list"
  emitted :: int

text \<open>\<^verbatim>\<open># Inject out-of-order timestamps sometimes\<close>\<close>

definition inject_out_of_order :: "args \<Rightarrow> payload \<Rightarrow> payload io" where
  "inject_out_of_order a payload =
     io_bind random (\<lambda>u.
       if u < oo_rate a then
         io_bind datetime_now (\<lambda>now.
         io_bind (randint 60 3600) (\<lambda>k.
         io_return (payload\<lparr>event_ts := isoformat_ms (now - k * 1000000)\<rparr>)))
       else io_return payload)"

text \<open>\<^verbatim>\<open># Inject duplicates sometimes\<close>: \<^verbatim>\<open>random.random()\<close> is only drawn when the window is
  not empty.\<close>

definition inject_duplicate :: "args \<Rightarrow> payload list \<Rightarrow> payload \<Rightarrow> payload io" where
  "inject_duplicate a prev payload =
     (if prev \<noteq> [] then
        io_bind random (\<lambda>u. if u < dup_rate a then choice prev else io_return payload)
      else io_return payload)"

text \<open>\<^verbatim>\<open># Keep a sample for possible duplicates\<close>: \<^verbatim>\<open>xs[-2000:]\<close> is the last 2000 elements.\<close>

definition remember :: "payload list \<Rightarrow> payload \<Rightarrow> payload list" where
  "remember prev payload =
     (let prev' = prev @ [payload] in
      if length prev' > 5000 then drop (length prev' - 2000) prev' else prev')"

definition write_out :: "string option \<Rightarrow> out_line \<Rightarrow> unit io" where
  "write_out out_fh line = (case out_fh of Some path \<Rightarrow> fh_write line | None \<Rightarrow> print_line line)"

text \<open>One pass through the body of \<^verbatim>\<open>for ev in session_events\<close>, after the \<^verbatim>\<open>break\<close> test.\<close>

definition emit_one :: "args \<Rightarrow> string option \<Rightarrow> ClickstreamEvent \<Rightarrow> locals \<Rightarrow> locals io" where
  "emit_one a out_fh ev l =
     io_bind (inject_out_of_order a (asdict ev)) (\<lambda>payload1.
     io_bind (inject_duplicate a (previously_emitted l) payload1) (\<lambda>payload.
     io_bind (write_out out_fh (Json_dumps payload ('','', '':'') False)) (\<lambda>_.
     io_bind (if sleep_ms a > 0 then time_sleep_ms (sleep_ms a) else io_return ()) (\<lambda>_.
     io_return (l\<lparr>previously_emitted := remember (previously_emitted l) payload,
                  emitted := emitted l + 1\<rparr>)))))"

fun emit_session ::
  "args \<Rightarrow> string option \<Rightarrow> ClickstreamEvent list \<Rightarrow> locals \<Rightarrow> locals io" where
  "emit_session a out_fh [] l = io_return l"
| "emit_session a out_fh (ev # evs) l =
     (if emitted l \<ge> events a then io_return l
      else io_bind (emit_one a out_fh ev l) (\<lambda>l'. emit_session a out_fh evs l'))"

text \<open>One pass through the body of \<^verbatim>\<open>while emitted < args.events\<close>.\<close>

definition emit_user :: "args \<Rightarrow> string option \<Rightarrow> locals \<Rightarrow> locals io" where
  "emit_user a out_fh l =
     io_bind new_user_id (\<lambda>uid.
     io_bind (generate_session_events uid (max_events_per_session a)) (\<lambda>session_events.
     emit_session a out_fh session_events l))"

subsection \<open>Setting up the output, and the exit status\<close>

text \<open>The \<^verbatim>\<open>try\<close> block up to the loop: \<^verbatim>\<open>out_fh\<close> stays \<open>None\<close> for \<^verbatim>\<open>"-"\<close>; otherwise the
  directory of the path is created and the file opened.\<close>

definition open_output :: "args \<Rightarrow> string option io" where
  "open_output a =
     (if out a = ''-'' then io_return None
      else io_bind (os_makedirs (os_path_dirname (out a))) (\<lambda>_.
           io_bind (open_w (out a)) (\<lambda>_.
           io_return (Some (out a)))))"

text \<open>The exit status of the interpreter: 1 after an uncaught exception, 0 otherwise.\<close>

definition exit_code :: "py_error + unit \<Rightarrow> int" where
  "exit_code r = (case r of Inl e \<Rightarrow> 1 | Inr u \<Rightarrow> 0)"

subsection \<open>What a run is observed by\<close>

text \<open>The line that the loop emits for a payload, and the lines that the destination of the
  run holds: standard output for \<open>None\<close>, the opened file otherwise.\<close>

definition json_line :: "payload \<Rightarrow> out_line" where
  "json_line p = Json_dumps p ('','', '':'') False"

definition dest_lines :: "string option \<Rightarrow> world \<Rightarrow> out_line list" where
  "dest_lines out_fh w =
     (case out_fh of
        None \<Rightarrow> stdout w
      | Some path \<Rightarrow> (case out_file w of None \<Rightarrow> [] | Some ls \<Rightarrow> ls))"

text \<open>An operation is \<open>quiet\<close> when it prints and writes nothing.\<close>

definition quiet :: "'a io \<Rightarrow> bool" where
  "quiet m = (\<forall>w. stdout (snd (m w)) = stdout w \<and> out_file (snd (m w)) = out_file w)"

text \<open>\<open>only_dups prev ps\<close>: each payload of \<open>ps\<close>, emitted in turn from the window \<open>prev\<close>, is
  taken from the window as it stands, unless the window is empty. \<open>run_trace a fh l w ps l' w'\<close>:
  going from \<open>(l, w)\<close> to \<open>(l', w')\<close> emitted exactly the payloads \<open>ps\<close>, in this order, to the
  destination \<open>fh\<close> and to nowhere else.\<close>

fun only_dups :: "payload list \<Rightarrow> payload list \<Rightarrow> bool" where
  "only_dups prev [] = True"
| "only_dups prev (p # ps) = ((prev = [] \<or> p \<in> set prev) \<and> only_dups (remember prev p) ps)"

definition run_trace ::
  "args \<Rightarrow> string option \<Rightarrow> locals \<Rightarrow> world \<Rightarrow> payload list \<Rightarrow> locals \<Rightarrow> world \<Rightarrow> bool" where
  "run_trace a fh l w ps l' w' \<longleftrightarrow>
     dest_lines fh w' = dest_lines fh w @ map json_line ps \<and>
     (case fh of None \<Rightarrow> out_file w' = out_file w | Some path \<Rightarrow> stdout w' = stdout w) \<and>
     previously_emitted l' = foldl remember (previously_emitted l) ps \<and>
     (out_file w' = None \<longrightarrow> out_file w = None) \<and>
     emitted l' = emitted l + int (length ps) \<and>
     (1 \<le> dup_rate a \<longrightarrow> only_dups (previously_emitted l) ps)"


subsection \<open>Example inputs\<close>

text \<open>The defaults of the command line, a world to run the model in (it accepts every
  directory and path, and its tapes are arbitrary) and an event.\<close>

definition default_args :: args where
  "default_args =
     \<lparr>events = 200, max_events_per_session = 12, sleep_ms = 0, out = ''-'',
      dup_rate = 1 / 100, oo_rate = 2 / 100\<rparr>"

definition demo_world :: world where
  "demo_world =
     \<lparr>rand_tape = (\<lambda>i. 7 * i + 3),
      uuid_tape = (\<lambda>i. ''0123456789abcdef0123456789abcdef''),
      city_tape = (\<lambda>i. ''Berlin''),
      clock_tape = (\<lambda>i. 1700000000123456 + 1000 * int i),
      makedirs_ok = (\<lambda>d. True),
      open_ok = (\<lambda>p. True),
      stdout = [], out_file = None, out_closed = False, slept_ms = 0\<rparr>"

definition demo_event :: ClickstreamEvent where
  "demo_event =
     \<lparr>event_id = ''01234567-89ab-cdef-0123-456789abcdef'', event_ts = 1700000000000,
      user_id = ''usr_0123456789abcdef'', session_id = ''sess_0123456789abcdef'',
      event_type = ''page_view'', page = ''/search'', referrer = ''google'',
      device = [(''os'', ''Linux''), (''browser'', ''Firefox'')],
      geo = [(''country'', ''DE''), (''city'', ''Berlin'')],
      attributes = [(''ab_test_variant'', PyStr ''A''), (''utm_campaign'', PyStr ''none'')]\<rparr>"

subsection \<open>Progress of one pass of the outer loop\<close>

text \<open>The outer loop ends because a session is never empty and its first event is always
  emitted while the counter is below \<^verbatim>\<open>args.events\<close>. The facts below establish this; the
  definition of the loop follows them.\<close>

declare str_nat.simps [simp del]

lemma io_bind_InrE:
  assumes "io_bind m f w = (Inr y, w'')"
  obtains x w' where "m w = (Inr x, w')" and "f x w' = (Inr y, w'')"
  using assms by (auto simp: io_bind_def split: prod.splits sum.splits)

lemma io_bind_ok:
  assumes "\<exists>x w1. m w = (Inr x, w1)"
    and "\<And>x w1. \<exists>y w2. f x w1 = (Inr y, w2)"
  shows "\<exists>y w2. io_bind m f w = (Inr y, w2)"
proof -
  from assms(1) obtain x w1 where "m w = (Inr x, w1)" by blast
  with assms(2)[of x w1] show ?thesis by (simp add: io_bind_def)
qed

lemma io_return_ok: "\<exists>y w2. io_return x w = (Inr y, w2)"
  by (simp add: io_return_def)

lemma random_eq:
  "random w = (Inr (rat_of_nat (rand_tape w 0 mod 9007199254740992) / 9007199254740992),
               w\<lparr>rand_tape := (\<lambda>i. rand_tape w (Suc i))\<rparr>)"
  by (simp add: random_def io_bind_def randbelow_def io_return_def)

lemma choice_eq:
  "seq \<noteq> [] \<Longrightarrow> choice seq w =
     (Inr (seq ! (rand_tape w 0 mod length seq)),
      w\<lparr>rand_tape := (\<lambda>i. rand_tape w (Suc i))\<rparr>)"
  by (simp add: choice_def io_bind_def randbelow_def io_return_def)

lemma randint_eq:
  "a \<le> b \<Longrightarrow> randint a b w =
     (Inr (a + int (rand_tape w 0 mod nat (b - a + 1))),
      w\<lparr>rand_tape := (\<lambda>i. rand_tape w (Suc i))\<rparr>)"
  by (simp add: randint_def io_bind_def randbelow_def io_return_def)

lemma make_event_type:
  assumes "make_event uid sid (Some t) w = (Inr ev, w')" and "t \<noteq> []"
  shows "event_type ev = t"
  using assms unfolding make_event_def
  by (elim io_bind_InrE) (auto simp: io_return_def)

lemma session_rest_prefix:
  "session_rest uid sid k evs w = (Inr evs', w') \<Longrightarrow> \<exists>rest. evs' = evs @ rest \<and> length rest = k"
proof (induction k arbitrary: evs w)
  case 0
  then show ?case by (simp add: io_return_def)
next
  case (Suc k)
  from Suc.prems obtain ev w2 where
    "session_rest uid sid k (evs @ [ev]) w2 = (Inr evs', w')"
    by (auto elim!: io_bind_InrE)
  from Suc.IH[OF this] show ?case by auto
qed

lemma generate_session_events_first:
  assumes "generate_session_events uid m w = (Inr evs, w')"
  shows "evs \<noteq> [] \<and> event_type (hd evs) = ''page_view''"
proof -
  from assms obtain sid w1 ev0 w2 n w3 where
    ev0: "make_event uid sid (Some ''page_view'') w1 = (Inr ev0, w2)" and
    rest: "session_rest uid sid (nat (n - 1)) [ev0] w3 = (Inr evs, w')"
    unfolding generate_session_events_def by (auto elim!: io_bind_InrE)
  from make_event_type[OF ev0] have "event_type ev0 = ''page_view''" by simp
  moreover from session_rest_prefix[OF rest] obtain rest' where "evs = [ev0] @ rest'" by auto
  ultimately show ?thesis by simp
qed

lemma inject_out_of_order_ok: "\<exists>p w'. inject_out_of_order a payload w = (Inr p, w')"
  by (simp add: inject_out_of_order_def io_bind_def io_return_def random_eq
      datetime_now_def randint_eq)

lemma inject_duplicate_ok: "\<exists>p w'. inject_duplicate a prev payload w = (Inr p, w')"
  by (simp add: inject_duplicate_def io_bind_def io_return_def random_eq choice_eq)

lemma emit_one_eq:
  assumes "inject_out_of_order a (asdict ev) w = (Inr p1, w1)"
    and "inject_duplicate a (previously_emitted l) p1 w1 = (Inr p, w2)"
  shows "emit_one a fh ev l w =
     (Inr (l\<lparr>previously_emitted := remember (previously_emitted l) p,
              emitted := emitted l + 1\<rparr>),
      snd ((if sleep_ms a > 0 then time_sleep_ms (sleep_ms a) else io_return ())
        (snd (write_out fh (Json_dumps p ('','', '':'') False) w2))))"
  using assms
  by (simp add: emit_one_def io_bind_def io_return_def write_out_def fh_write_def
      print_line_def time_sleep_ms_def split: option.splits)

lemma emit_one_ok:
  "\<exists>p w'. emit_one a fh ev l w =
     (Inr (l\<lparr>previously_emitted := remember (previously_emitted l) p,
              emitted := emitted l + 1\<rparr>), w')"
proof -
  obtain p1 w1 where 1: "inject_out_of_order a (asdict ev) w = (Inr p1, w1)"
    using inject_out_of_order_ok by blast
  obtain p w2 where 2: "inject_duplicate a (previously_emitted l) p1 w1 = (Inr p, w2)"
    using inject_duplicate_ok by blast
  from emit_one_eq[OF 1 2] show ?thesis by blast
qed

lemma emit_session_mono:
  "emit_session a fh evs l w = (Inr l', w') \<Longrightarrow> emitted l \<le> emitted l'"
proof (induction evs arbitrary: l w)
  case Nil
  then show ?case by (simp add: io_return_def)
next
  case (Cons ev evs)
  show ?case
  proof (cases "events a \<le> emitted l")
    case True
    with Cons.prems show ?thesis by (simp add: io_return_def)
  next
    case False
    obtain p w1 where 1: "emit_one a fh ev l w =
      (Inr (l\<lparr>previously_emitted := remember (previously_emitted l) p,
               emitted := emitted l + 1\<rparr>), w1)"
      using emit_one_ok by blast
    with Cons.prems False
    have "emit_session a fh evs (l\<lparr>previously_emitted := remember (previously_emitted l) p,
              emitted := emitted l + 1\<rparr>) w1 = (Inr l', w')"
      by (simp add: io_bind_def)
    from Cons.IH[OF this] show ?thesis by simp
  qed
qed

lemma emit_session_progress:
  assumes "emit_session a fh (ev # evs) l w = (Inr l', w')" and "emitted l < events a"
  shows "emitted l < emitted l'"
proof -
  obtain p w1 where 1: "emit_one a fh ev l w =
    (Inr (l\<lparr>previously_emitted := remember (previously_emitted l) p,
             emitted := emitted l + 1\<rparr>), w1)"
    using emit_one_ok by blast
  with assms
  have "emit_session a fh evs (l\<lparr>previously_emitted := remember (previously_emitted l) p,
            emitted := emitted l + 1\<rparr>) w1 = (Inr l', w')"
    by (simp add: io_bind_def)
  from emit_session_mono[OF this] show ?thesis by simp
qed

lemma emit_user_progress:
  assumes "emit_user a fh l w = (Inr l', w')" and "emitted l < events a"
  shows "emitted l < emitted l'"
proof -
  from assms(1) obtain uid w1 evs w2 where
    g: "generate_session_events uid (max_events_per_session a) w1 = (Inr evs, w2)" and
    s: "emit_session a fh evs l w2 = (Inr l', w')"
    unfolding emit_user_def by (auto elim!: io_bind_InrE)
  from generate_session_events_first[OF g] obtain ev evs' where "evs = ev # evs'"
    by (cases evs) auto
  with s assms(2) show ?thesis using emit_session_progress by blast
qed

subsection \<open>The outer loop and \<^verbatim>\<open>main\<close>\<close>

function emit_loop :: "args \<Rightarrow> string option \<Rightarrow> locals \<Rightarrow> locals io" where
  "emit_loop a out_fh l w =
     (if emitted l < events a then
        (case emit_user a out_fh l w of
           (Inl e, w') \<Rightarrow> (Inl e, w')
         | (Inr l', w') \<Rightarrow> emit_loop a out_fh l' w')
      else (Inr l, w))"
  by pat_completeness auto
termination
proof (relation "measure (\<lambda>(a, out_fh, l, w). nat (events a - emitted l))")
  show "wf (measure (\<lambda>(a, out_fh, l, w). nat (events a - emitted l)))" by simp
next
  fix a :: args and out_fh :: "string option" and l l' :: locals and w w' :: world
    and r :: "py_error + locals"
  assume "emitted l < events a" "(r, w') = emit_user a out_fh l w" "r = Inr l'"
  then show "((a, out_fh, l', w'), (a, out_fh, l, w))
      \<in> measure (\<lambda>(a, out_fh, l, w). nat (events a - emitted l))"
    using emit_user_progress[of a out_fh l w l' w'] by simp
qed

text \<open>\<^verbatim>\<open>main\<close>, from the parsed arguments on (\<^verbatim>\<open>parse_args\<close> itself exits with status 2 on
  an argument it cannot convert). The \<^verbatim>\<open>finally\<close> clause closes the file when \<^verbatim>\<open>out_fh\<close>
  was assigned one; an exception leaves \<^verbatim>\<open>main\<close> as \<open>Inl\<close>.\<close>

definition main :: "args \<Rightarrow> unit io" where
  "main a =
     io_bind (print_line (Print_args a)) (\<lambda>_ w1.
       case open_output a w1 of
         (Inl e, w2) \<Rightarrow> (Inl e, w2)
       | (Inr out_fh, w2) \<Rightarrow>
           (case emit_loop a out_fh \<lparr>previously_emitted = [], emitted = 0\<rparr> w2 of
              (r, w3) \<Rightarrow>
                (case r of Inl e \<Rightarrow> Inl e | Inr l \<Rightarrow> Inr (),
                 case out_fh of None \<Rightarrow> w3 | Some path \<Rightarrow> fh_close w3)))"

declare emit_loop.simps [simp del]

section \<open>Basic facts\<close>

subsection \<open>The library calls and the synthesizer never raise on the arguments used\<close>

lemma choice_ok: "seq \<noteq> [] \<Longrightarrow> \<exists>x w'. choice seq w = (Inr x, w')"
  by (simp add: choice_eq)

lemma choice_mem: "choice seq w = (Inr x, w') \<Longrightarrow> x \<in> set seq"
  by (cases "seq = []") (auto simp: choice_eq, simp add: choice_def io_raise_def)

lemma randint_ok: "a \<le> b \<Longrightarrow> \<exists>x w'. randint a b w = (Inr x, w')"
  by (simp add: randint_eq)

lemma uuid4_hex_ok: "\<exists>x w'. uuid4_hex w = (Inr x, w')"
  by (simp add: uuid4_hex_def)

lemma uniform_ok: "\<exists>x w'. uniform a b w = (Inr x, w')"
  by (simp add: uniform_def io_bind_def random_eq io_return_def)

lemma if_ok:
  assumes "c \<Longrightarrow> \<exists>x w'. m w = (Inr x, w')" and "\<not> c \<Longrightarrow> \<exists>x w'. n w = (Inr x, w')"
  shows "\<exists>x w'. (if c then m else n) w = (Inr x, w')"
  using assms by (cases c) simp_all

lemma commerce_attrs_ok: "\<exists>x w'. commerce_attrs etype attrs w = (Inr x, w')"
  unfolding commerce_attrs_def
  by (intro if_ok io_bind_ok randint_ok uniform_ok choice_ok io_return_ok) simp_all

lemma purchase_attrs_ok: "\<exists>x w'. purchase_attrs etype attrs w = (Inr x, w')"
  unfolding purchase_attrs_def
  by (intro if_ok io_bind_ok uuid4_hex_ok choice_ok io_return_ok) simp_all

lemma etype_choice_ok:
  "\<exists>x w'. (case t of None \<Rightarrow> choice EVENT_TYPES
            | Some t \<Rightarrow> if t = [] then choice EVENT_TYPES else io_return t) w = (Inr x, w')"
  by (auto simp: EVENT_TYPES_def choice_eq io_return_def split: option.splits)

lemma page_choice_ok:
  "\<exists>x w'. (if c then choice [''/product'', ''/cart'', ''/checkout''] else io_return page0) w
      = (Inr x, w')"
  by (simp add: choice_eq io_return_def)

lemma fake_city_ok: "\<exists>x w'. fake_city w = (Inr x, w')"
  by (simp add: fake_city_def)

lemma iso_utc_now_ok: "\<exists>x w'. iso_utc_now w = (Inr x, w')"
  by (simp add: iso_utc_now_def io_bind_def datetime_now_def io_return_def)

lemma make_event_total: "\<exists>ev w'. make_event uid sid t w = (Inr ev, w')"
  unfolding make_event_def
  by (intro io_bind_ok etype_choice_ok page_choice_ok choice_ok fake_city_ok commerce_attrs_ok
        purchase_attrs_ok uuid4_hex_ok iso_utc_now_ok io_return_ok)
     (simp_all add: PAGES_def OSES_def BROWSERS_def COUNTRIES_def)


lemma choices1_ok:
  "\<exists>x w'. choices1 [''page_view'', ''add_to_cart'', ''purchase''] [78 / 100, 18 / 100, 4 / 100] w
      = (Inr x, w')"
  by (simp add: choices1_def Let_def random_eq io_bind_def io_return_def)

lemma session_rest_ok: "\<exists>evs' w'. session_rest uid sid k evs w = (Inr evs', w')"
proof (induction k arbitrary: evs w)
  case 0
  show ?case by (simp add: io_return_def)
next
  case (Suc k)
  show ?case
    unfolding session_rest.simps
    by (intro io_bind_ok choices1_ok make_event_total Suc.IH)
qed

lemma new_session_id_ok: "\<exists>x w'. new_session_id w = (Inr x, w')"
  by (simp add: new_session_id_def io_bind_def uuid4_hex_def io_return_def)

lemma new_user_id_ok: "\<exists>x w'. new_user_id w = (Inr x, w')"
  by (simp add: new_user_id_def io_bind_def uuid4_hex_def io_return_def)

lemma generate_session_events_ok:
  "1 \<le> m \<Longrightarrow> \<exists>evs w'. generate_session_events uid m w = (Inr evs, w')"
  unfolding generate_session_events_def
  by (intro io_bind_ok new_session_id_ok make_event_total randint_ok session_rest_ok)

lemma generate_session_events_ValueError:
  assumes "m < 1"
  shows "fst (generate_session_events uid m w) = Inl ValueError"
proof -
  obtain sid w1 where 1: "new_session_id w = (Inr sid, w1)"
    using new_session_id_ok by blast
  obtain ev0 w2 where 2: "make_event uid sid (Some ''page_view'') w1 = (Inr ev0, w2)"
    using make_event_total by blast
  from assms 1 2 show ?thesis
    by (simp add: generate_session_events_def io_bind_def randint_def io_raise_def)
qed

lemma keys_dict_set_fresh: "k \<notin> set (keys d) \<Longrightarrow> keys (dict_set d k v) = keys d @ [k]"
  by (induction d) (auto simp: keys_def)

lemma commerce_attrs_keys:
  assumes "commerce_attrs etype [(''ab_test_variant'', v), (''utm_campaign'', c)] w = (Inr attrs, w')"
  shows "keys attrs = [''ab_test_variant'', ''utm_campaign''] @
      (if etype = ''add_to_cart'' \<or> etype = ''purchase''
       then [''product_id'', ''price'', ''currency'', ''quantity''] else [])"
proof (cases "etype = ''add_to_cart'' \<or> etype = ''purchase''")
  case True
  with assms show ?thesis
    unfolding commerce_attrs_def
    by (auto elim!: io_bind_InrE simp: io_return_def keys_def)
next
  case False
  with assms show ?thesis
    by (auto simp: commerce_attrs_def io_return_def keys_def)
qed

lemma purchase_attrs_keys:
  assumes "purchase_attrs etype attrs1 w = (Inr attrs, w')"
    and "''order_id'' \<notin> set (keys attrs1)" "''payment_method'' \<notin> set (keys attrs1)"
  shows "keys attrs = keys attrs1 @
      (if etype = ''purchase'' then [''order_id'', ''payment_method''] else [])"
proof (cases "etype = ''purchase''")
  case True
  with assms show ?thesis
    unfolding purchase_attrs_def
    by (auto elim!: io_bind_InrE simp: io_return_def keys_dict_set_fresh)
next
  case False
  with assms show ?thesis
    by (auto simp: purchase_attrs_def io_return_def)
qed

lemma make_event_parts:
  assumes "make_event uid sid t w = (Inr ev, w')"
  obtains page0 w1 w2 w3 v c w4 w5 attrs1 w6 where
      "choice PAGES w1 = (Inr page0, w2)"
      "(if event_type ev \<in> set [''add_to_cart'', ''purchase'']
        then choice [''/product'', ''/cart'', ''/checkout'']
        else io_return page0) w2 = (Inr (page ev), w3)"
      "commerce_attrs (event_type ev)
         [(''ab_test_variant'', PyStr v), (''utm_campaign'', PyStr c)] w4 = (Inr attrs1, w5)"
      "purchase_attrs (event_type ev) attrs1 w5 = (Inr (attributes ev), w6)"
  using assms unfolding make_event_def
  by (elim io_bind_InrE) (auto simp: io_return_def)

lemma make_event_keys:
  assumes "make_event uid sid t w = (Inr ev, w')"
  shows "keys (attributes ev) =
      [''ab_test_variant'', ''utm_campaign''] @
      (if event_type ev = ''add_to_cart'' \<or> event_type ev = ''purchase''
       then [''product_id'', ''price'', ''currency'', ''quantity''] else []) @
      (if event_type ev = ''purchase'' then [''order_id'', ''payment_method''] else [])"
proof -
  from assms obtain v c w4 w5 attrs1 w6 where
    1: "commerce_attrs (event_type ev)
          [(''ab_test_variant'', PyStr v), (''utm_campaign'', PyStr c)] w4 = (Inr attrs1, w5)" and
    2: "purchase_attrs (event_type ev) attrs1 w5 = (Inr (attributes ev), w6)"
    by (rule make_event_parts)
  note k1 = commerce_attrs_keys[OF 1]
  have "keys (attributes ev) = keys attrs1 @
      (if event_type ev = ''purchase'' then [''order_id'', ''payment_method''] else [])"
    by (rule purchase_attrs_keys[OF 2]) (simp_all add: k1)
  with k1 show ?thesis by simp
qed


subsection \<open>Runs of the emission loop\<close>

lemma quietD:
  "quiet m \<Longrightarrow> m w = (r, w') \<Longrightarrow> stdout w' = stdout w \<and> out_file w' = out_file w"
  by (auto simp: quiet_def dest: spec[of _ w])

lemma quiet_return: "quiet (io_return x)"
  by (simp add: quiet_def io_return_def)

lemma quiet_raise: "quiet (io_raise e)"
  by (simp add: quiet_def io_raise_def)

lemma quiet_bind: "quiet m \<Longrightarrow> (\<And>x. quiet (f x)) \<Longrightarrow> quiet (io_bind m f)"
  unfolding quiet_def io_bind_def
  by (auto split: prod.splits sum.splits) (metis snd_conv)+

lemma quiet_if: "(c \<Longrightarrow> quiet m) \<Longrightarrow> (\<not> c \<Longrightarrow> quiet n) \<Longrightarrow> quiet (if c then m else n)"
  by simp

lemma quiet_randbelow: "quiet (randbelow n)"
  by (simp add: quiet_def randbelow_def)

lemma quiet_uuid4_hex: "quiet uuid4_hex"
  by (simp add: quiet_def uuid4_hex_def)

lemma quiet_fake_city: "quiet fake_city"
  by (simp add: quiet_def fake_city_def)

lemma quiet_datetime_now: "quiet datetime_now"
  by (simp add: quiet_def datetime_now_def)

lemmas quiet_intros = quiet_bind quiet_return quiet_raise quiet_if quiet_randbelow
  quiet_uuid4_hex quiet_fake_city quiet_datetime_now

lemma quiet_random: "quiet random"
  unfolding random_def by (intro quiet_intros)

lemma quiet_choice: "quiet (choice seq)"
  unfolding choice_def by (intro quiet_intros)

lemma quiet_randint: "quiet (randint a b)"
  unfolding randint_def by (intro quiet_intros)

lemma quiet_uniform: "quiet (uniform a b)"
  unfolding uniform_def by (intro quiet_intros quiet_random)

lemma quiet_choices1: "quiet (choices1 population weights)"
  unfolding choices1_def Let_def by (intro quiet_intros quiet_random)

lemma quiet_commerce_attrs: "quiet (commerce_attrs etype attrs)"
  unfolding commerce_attrs_def by (intro quiet_intros quiet_randint quiet_uniform quiet_choice)

lemma quiet_purchase_attrs: "quiet (purchase_attrs etype attrs)"
  unfolding purchase_attrs_def by (intro quiet_intros quiet_choice)

lemma quiet_make_event: "quiet (make_event uid sid t)"
  unfolding make_event_def iso_utc_now_def
  by (cases t)
     (simp_all only: option.case,
      (intro quiet_intros quiet_choice quiet_commerce_attrs quiet_purchase_attrs)+)

lemma quiet_session_rest: "quiet (session_rest uid sid k evs)"
  by (induction k arbitrary: evs)
     (simp_all only: session_rest.simps, (intro quiet_intros quiet_choices1 quiet_make_event | assumption)+)

lemma quiet_generate_session_events: "quiet (generate_session_events uid m)"
  unfolding generate_session_events_def new_session_id_def
  by (intro quiet_intros quiet_make_event quiet_randint quiet_session_rest)

lemma quiet_new_user_id: "quiet new_user_id"
  unfolding new_user_id_def by (intro quiet_intros)

lemma quiet_inject_out_of_order: "quiet (inject_out_of_order a payload)"
  unfolding inject_out_of_order_def by (intro quiet_intros quiet_random quiet_randint)

lemma quiet_inject_duplicate: "quiet (inject_duplicate a prev payload)"
  unfolding inject_duplicate_def by (intro quiet_intros quiet_random quiet_choice)

lemma only_dups_append:
  "only_dups prev (ps @ qs) \<longleftrightarrow> only_dups prev ps \<and> only_dups (foldl remember prev ps) qs"
  by (induction ps arbitrary: prev) auto

lemma run_trace_Nil: "run_trace a fh l w [] l w"
  by (simp add: run_trace_def split: option.splits)

lemma run_trace_trans:
  "run_trace a fh l w ps l1 w1 \<Longrightarrow> run_trace a fh l1 w1 qs l2 w2
     \<Longrightarrow> run_trace a fh l w (ps @ qs) l2 w2"
  by (auto simp: run_trace_def only_dups_append split: option.splits)

lemma run_trace_quiet:
  assumes "quiet m" and "m w = (r, w1)" and "run_trace a fh l w1 ps l' w'"
  shows "run_trace a fh l w ps l' w'"
proof -
  from quietD[OF assms(1,2)] have "stdout w1 = stdout w" "out_file w1 = out_file w" by auto
  with assms(3) show ?thesis
    by (auto simp: run_trace_def dest_lines_def split: option.splits)
qed

lemma random_less_1: "random w = (Inr u, w') \<Longrightarrow> u < 1"
  by (auto simp: random_eq)

lemma inject_duplicate_dup:
  assumes "inject_duplicate a prev p1 w1 = (Inr p, w2)" and "prev \<noteq> []" and "1 \<le> dup_rate a"
  shows "p \<in> set prev"
proof -
  from assms(1,2) obtain u w' where
    u: "random w1 = (Inr u, w')" and
    c: "(if u < dup_rate a then choice prev else io_return p1) w' = (Inr p, w2)"
    unfolding inject_duplicate_def by (auto elim!: io_bind_InrE)
  from random_less_1[OF u] assms(3) have "u < dup_rate a" by simp
  with c have "choice prev w' = (Inr p, w2)" by simp
  then show ?thesis by (rule choice_mem)
qed

lemma emit_one_run:
  assumes "emit_one a fh ev l w = (Inr l', w')"
  shows "\<exists>p. run_trace a fh l w [p] l' w'"
proof -
  obtain p1 w1 where 1: "inject_out_of_order a (asdict ev) w = (Inr p1, w1)"
    using inject_out_of_order_ok by blast
  obtain p w2 where 2: "inject_duplicate a (previously_emitted l) p1 w1 = (Inr p, w2)"
    using inject_duplicate_ok by blast
  from quietD[OF quiet_inject_out_of_order 1] quietD[OF quiet_inject_duplicate 2]
  have q: "stdout w2 = stdout w" "out_file w2 = out_file w" by auto
  have d: "previously_emitted l = [] \<or> p \<in> set (previously_emitted l)" if "1 \<le> dup_rate a"
    using inject_duplicate_dup[OF 2 _ that] by blast
  from emit_one_eq[OF 1 2, of fh] assms
  have l': "l' = l\<lparr>previously_emitted := remember (previously_emitted l) p,
              emitted := emitted l + 1\<rparr>"
    and w': "w' = snd ((if sleep_ms a > 0 then time_sleep_ms (sleep_ms a) else io_return ())
        (snd (write_out fh (Json_dumps p ('','', '':'') False) w2)))"
    by simp_all
  have "run_trace a fh l w [p] l' w'"
    unfolding run_trace_def l' w'
    using q d
    by (simp add: dest_lines_def json_line_def write_out_def fh_write_def print_line_def
        time_sleep_ms_def io_return_def split: option.splits)
  then show ?thesis ..
qed

lemma emit_session_run:
  "emit_session a fh evs l w = (Inr l', w') \<Longrightarrow>
     \<exists>ps. run_trace a fh l w ps l' w' \<and> emitted l' \<le> max (emitted l) (events a)"
proof (induction evs arbitrary: l w)
  case Nil
  then have "l' = l" "w' = w" by (simp_all add: io_return_def)
  then show ?case using run_trace_Nil[of a fh l w] by (intro exI[of _ "[]"]) simp
next
  case (Cons ev evs)
  show ?case
  proof (cases "events a \<le> emitted l")
    case True
    with Cons.prems have "l' = l" "w' = w" by (simp_all add: io_return_def)
    then show ?thesis using run_trace_Nil[of a fh l w] by (intro exI[of _ "[]"]) simp
  next
    case False
    with Cons.prems obtain l1 w1 where
      1: "emit_one a fh ev l w = (Inr l1, w1)" and
      2: "emit_session a fh evs l1 w1 = (Inr l', w')"
      by (auto elim!: io_bind_InrE)
    from emit_one_run[OF 1] obtain p where p: "run_trace a fh l w [p] l1 w1" ..
    from Cons.IH[OF 2] obtain ps where
      ps: "run_trace a fh l1 w1 ps l' w'" "emitted l' \<le> max (emitted l1) (events a)" by blast
    from p have "emitted l1 = emitted l + 1" by (simp add: run_trace_def)
    with ps(2) False have "emitted l' \<le> max (emitted l) (events a)" by simp
    with run_trace_trans[OF p ps(1)] show ?thesis by blast
  qed
qed

lemma emit_user_run:
  assumes "emit_user a fh l w = (Inr l', w')"
  shows "\<exists>ps. run_trace a fh l w ps l' w' \<and> emitted l' \<le> max (emitted l) (events a)"
proof -
  from assms obtain uid w1 evs w2 where
    u: "new_user_id w = (Inr uid, w1)" and
    g: "generate_session_events uid (max_events_per_session a) w1 = (Inr evs, w2)" and
    s: "emit_session a fh evs l w2 = (Inr l', w')"
    unfolding emit_user_def by (auto elim!: io_bind_InrE)
  from emit_session_run[OF s] obtain ps where
    ps: "run_trace a fh l w2 ps l' w'" "emitted l' \<le> max (emitted l) (events a)" by blast
  from run_trace_quiet[OF quiet_new_user_id u
      run_trace_quiet[OF quiet_generate_session_events g ps(1)]] ps(2)
  show ?thesis by blast
qed

lemma emit_loop_run:
  "emit_loop a fh l w = (Inr l', w') \<Longrightarrow>
     \<exists>ps. run_trace a fh l w ps l' w' \<and> emitted l' = max (emitted l) (events a)"
proof (induction a fh l w rule: emit_loop.induct)
  case (1 a fh l w)
  show ?case
  proof (cases "emitted l < events a")
    case False
    with "1.prems" have "l' = l" "w' = w" by (simp_all add: emit_loop.simps)
    with False show ?thesis using run_trace_Nil[of a fh l w] by (intro exI[of _ "[]"]) simp
  next
    case True
    with "1.prems" obtain l1 w1 where
      u: "emit_user a fh l w = (Inr l1, w1)" and
      r: "emit_loop a fh l1 w1 = (Inr l', w')"
      by (auto simp: emit_loop.simps[of a fh l w] split: prod.splits sum.splits)
    from emit_user_run[OF u] obtain ps where
      ps: "run_trace a fh l w ps l1 w1" "emitted l1 \<le> max (emitted l) (events a)" by blast
    from "1.IH"[OF True u[symmetric] refl r] obtain qs where
      qs: "run_trace a fh l1 w1 qs l' w'" "emitted l' = max (emitted l1) (events a)" by blast
    from ps(2) qs(2) True have "emitted l' = max (emitted l) (events a)" by simp
    with run_trace_trans[OF ps(1) qs(1)] show ?thesis by blast
  qed
qed

lemma emit_session_ok: "\<exists>l' w'. emit_session a fh evs l w = (Inr l', w')"
proof (induction evs arbitrary: l w)
  case Nil
  show ?case by (simp add: io_return_def)
next
  case (Cons ev evs)
  show ?case
  proof (cases "events a \<le> emitted l")
    case True
    then show ?thesis by (simp add: io_return_def)
  next
    case False
    have "\<exists>l' w'. io_bind (emit_one a fh ev l) (\<lambda>l'. emit_session a fh evs l') w = (Inr l', w')"
    proof (rule io_bind_ok)
      show "\<exists>x w1. emit_one a fh ev l w = (Inr x, w1)" using emit_one_ok by blast
    qed (rule Cons.IH)
    with False show ?thesis by simp
  qed
qed

lemma emit_user_ok:
  "1 \<le> max_events_per_session a \<Longrightarrow> \<exists>l' w'. emit_user a fh l w = (Inr l', w')"
  unfolding emit_user_def
  by (intro io_bind_ok new_user_id_ok generate_session_events_ok emit_session_ok)

lemma emit_loop_ok:
  "1 \<le> max_events_per_session a \<Longrightarrow> \<exists>l' w'. emit_loop a fh l w = (Inr l', w')"
proof (induction a fh l w rule: emit_loop.induct)
  case (1 a fh l w)
  show ?case
  proof (cases "emitted l < events a")
    case False
    then show ?thesis by (simp add: emit_loop.simps)
  next
    case True
    from emit_user_ok[OF "1.prems"] obtain l1 w1 where
      u: "emit_user a fh l w = (Inr l1, w1)" by blast
    from "1.IH"[OF True u[symmetric] refl "1.prems"] True u show ?thesis
      by (simp add: emit_loop.simps[of a fh l w])
  qed
qed

lemma length_remember:
  "length (remember prev p) = (if 5000 \<le> length prev then 2000 else length prev + 1)"
  by (simp add: remember_def Let_def)

lemma remember_keep: "length prev < 5000 \<Longrightarrow> remember prev p = prev @ [p]"
  by (simp add: remember_def Let_def)

lemma remember_truncate:
  "5000 \<le> length prev \<Longrightarrow> remember prev p = drop (length prev - 1999) (prev @ [p])"
  by (simp add: remember_def Let_def)

lemma remember_not_Nil: "remember prev p \<noteq> []"
  using length_remember[of prev p] by (auto split: if_splits)

lemma set_remember: "set (remember prev p) \<subseteq> insert p (set prev)"
  by (auto simp: remember_def Let_def dest: in_set_dropD)

lemma foldl_remember_snoc: "foldl remember prev (ps @ [p]) = remember (foldl remember prev ps) p"
  by simp

lemma length_foldl_remember:
  "length (foldl remember [] ps) =
     (if length ps \<le> 5000 then length ps else 2000 + (length ps - 5001) mod 3001)"
proof (induction ps rule: rev_induct)
  case Nil
  show ?case by simp
next
  case (snoc p ps)
  let ?n = "length ps"
  show ?case
  proof (cases "?n < 5000")
    case True
    with snoc show ?thesis by (simp add: length_remember)
  next
    case False
    show ?thesis
    proof (cases "?n = 5000")
      case True
      with snoc show ?thesis by (simp add: length_remember)
    next
      case f: False
      define m where "m = ?n - 5001"
      with False f have m: "?n = 5001 + m" by simp
      have s: "Suc m mod 3001 = (if Suc (m mod 3001) = 3001 then 0 else Suc (m mod 3001))"
        by (rule mod_Suc)
      have b: "m mod 3001 < 3001" by simp
      from snoc m show ?thesis
        using s b by (auto simp add: length_remember)
    qed
  qed
qed

lemma only_dups_const:
  "only_dups prev ps \<Longrightarrow> prev \<noteq> [] \<Longrightarrow> set prev \<subseteq> {x} \<Longrightarrow> set ps \<subseteq> {x}"
proof (induction ps arbitrary: prev)
  case Nil
  show ?case by simp
next
  case (Cons p ps)
  from Cons.prems have px: "p = x" by auto
  from Cons.prems have o: "only_dups (remember prev p) ps" by simp
  from set_remember[of prev p] Cons.prems(3) px have "set (remember prev p) \<subseteq> {x}" by auto
  from Cons.IH[OF o remember_not_Nil this] px show ?case by simp
qed

lemma only_dups_from_empty:
  assumes "only_dups [] ps"
  shows "\<forall>j < length ps. ps ! j = ps ! 0"
proof (cases ps)
  case Nil
  then show ?thesis by simp
next
  case (Cons p qs)
  with assms have "only_dups (remember [] p) qs" by simp
  from only_dups_const[OF this remember_not_Nil, of p] set_remember[of "[]" p]
  have q: "set qs \<subseteq> {p}" by auto
  have "ps ! j = ps ! 0" if "j < length ps" for j
  proof (cases j)
    case 0
    then show ?thesis by simp
  next
    case (Suc i)
    with that Cons have "i < length qs" by simp
    then have "qs ! i \<in> set qs" by (rule nth_mem)
    with q have "qs ! i = p" by auto
    with Cons Suc show ?thesis by simp
  qed
  then show ?thesis by blast
qed

lemma set_foldl_remember: "set (foldl remember prev ps) \<subseteq> set prev \<union> set ps"
proof (induction ps rule: rev_induct)
  case Nil
  show ?case by simp
next
  case (snoc p ps)
  from set_remember[of "foldl remember prev ps" p] snoc show ?case by auto
qed

lemma os_path_dirname_bare: "CHR ''/'' \<notin> set p \<Longrightarrow> os_path_dirname p = []"
proof -
  assume "CHR ''/'' \<notin> set p"
  then have "dropWhile (\<lambda>c. c \<noteq> CHR ''/'') (rev p) = []"
    by (auto simp: dropWhile_eq_Nil_conv)
  then show ?thesis by (simp add: os_path_dirname_def)
qed




lemma open_output_bare:
  assumes "out a \<noteq> ''-''" and "CHR ''/'' \<notin> set (out a)"
  shows "open_output a w = (Inl FileNotFoundError, w)"
  using assms
  by (simp add: open_output_def io_bind_def os_makedirs_def os_path_dirname_bare)

lemma main_eq:
  "main a w =
     (case open_output a (w\<lparr>stdout := stdout w @ [Print_args a]\<rparr>) of
         (Inl e, w2) \<Rightarrow> (Inl e, w2)
       | (Inr out_fh, w2) \<Rightarrow>
           (case emit_loop a out_fh \<lparr>previously_emitted = [], emitted = 0\<rparr> w2 of
              (r, w3) \<Rightarrow>
                (case r of Inl e \<Rightarrow> Inl e | Inr l \<Rightarrow> Inr (),
                 case out_fh of None \<Rightarrow> w3 | Some path \<Rightarrow> fh_close w3)))"
  by (simp add: main_def io_bind_def print_line_def)

lemma inject_out_of_order_world:
  "snd (inject_out_of_order a p w) = snd (inject_out_of_order a p' w)"
  by (simp add: inject_out_of_order_def io_bind_def random_eq datetime_now_def randint_eq
      io_return_def)

lemma inject_duplicate_taken:
  assumes "prev \<noteq> []" and "random w1 = (Inr u, w2)" and "u < dup_rate a"
  shows "inject_duplicate a prev p1 w1 =
           (Inr (prev ! (rand_tape w2 0 mod length prev)),
            w2\<lparr>rand_tape := (\<lambda>i. rand_tape w2 (Suc i))\<rparr>)"
  using assms by (simp add: inject_duplicate_def io_bind_def choice_eq)

lemma emit_one_dup:
  assumes oo: "inject_out_of_order a (asdict ev) w = (Inr p1, w1)"
    and ne: "previously_emitted l \<noteq> []"
    and draw: "random w1 = (Inr u, w2)" and lt: "u < dup_rate a"
  shows "\<exists>w'. emit_one a fh ev l w =
           (Inr (l\<lparr>previously_emitted := remember (previously_emitted l)
                     (previously_emitted l ! (rand_tape w2 0 mod length (previously_emitted l))),
                   emitted := emitted l + 1\<rparr>), w') \<and>
         dest_lines fh w' = dest_lines fh w @
           [json_line (previously_emitted l ! (rand_tape w2 0 mod length (previously_emitted l)))]"
proof -
  let ?p = "previously_emitted l ! (rand_tape w2 0 mod length (previously_emitted l))"
  note d = inject_duplicate_taken[OF ne draw lt, of p1]
  note e = emit_one_eq[OF oo d, of fh]
  from quietD[OF quiet_inject_out_of_order oo] quietD[OF quiet_random draw]
  have s: "stdout w2 = stdout w" "out_file w2 = out_file w" by auto
  have "dest_lines fh (snd ((if sleep_ms a > 0 then time_sleep_ms (sleep_ms a) else io_return ())
            (snd (write_out fh (Json_dumps ?p ('','', '':'') False)
               (w2\<lparr>rand_tape := (\<lambda>i. rand_tape w2 (Suc i))\<rparr>)))))
        = dest_lines fh w @ [json_line ?p]"
    using s
    by (simp add: dest_lines_def json_line_def write_out_def fh_write_def print_line_def
        time_sleep_ms_def io_return_def split: option.splits)
  with e show ?thesis by blast
qed

lemma foldl_remember_Nil_iff: "foldl remember prev ps = [] \<longleftrightarrow> prev = [] \<and> ps = []"
proof (induction ps rule: rev_induct)
  case Nil
  show ?case by simp
next
  case (snoc p ps)
  show ?case by (simp add: remember_not_Nil)
qed

lemma random_ok: "\<exists>u w'. random w = (Inr u, w')"
  using random_eq by blast

lemma isoformat_ms_shift: "isoformat_ms (t - k * 1000000) = isoformat_ms t - 1000 * k"
proof -
  have "(t + (- (1000 * k)) * 1000) div 1000 = - (1000 * k) + t div 1000"
    by (rule div_mult_self1) simp
  then show ?thesis by (simp add: isoformat_ms_def)
qed

lemma random_fires_iff:
  assumes "random w = (Inr u, w1)"
  shows "u < p \<longleftrightarrow> int (rand_tape w 0 mod 9007199254740992) < \<lceil>p * 9007199254740992\<rceil>"
proof -
  let ?r = "rand_tape w 0 mod 9007199254740992"
  from assms have u: "u = rat_of_nat ?r / 9007199254740992" by (simp add: random_eq)
  have "u < p \<longleftrightarrow> rat_of_nat ?r < p * 9007199254740992"
    unfolding u by (simp add: divide_less_eq)
  also have "\<dots> \<longleftrightarrow> rat_of_int (int ?r) < p * 9007199254740992" by simp
  also have "\<dots> \<longleftrightarrow> int ?r < \<lceil>p * 9007199254740992\<rceil>" by (simp only: less_ceiling_iff)
  finally show ?thesis .
qed

lemma inject_out_of_order_taken:
  assumes "random w = (Inr u, w1)" and "u < oo_rate a"
  shows "inject_out_of_order a payload w =
     (Inr (payload\<lparr>event_ts :=
         isoformat_ms (clock_tape w 0) - 1000 * (60 + int (rand_tape w1 0 mod 3541))\<rparr>),
      w1\<lparr>clock_tape := (\<lambda>i. clock_tape w1 (Suc i)),
          rand_tape := (\<lambda>i. rand_tape w1 (Suc i))\<rparr>)"
proof -
  from assms(1) have c: "clock_tape w1 = clock_tape w" by (auto simp: random_eq)
  from assms show ?thesis
    by (simp add: inject_out_of_order_def io_bind_def datetime_now_def randint_eq io_return_def
        isoformat_ms_shift c)
qed

lemma inject_out_of_order_skipped:
  assumes "random w = (Inr u, w1)" and "\<not> u < oo_rate a"
  shows "inject_out_of_order a payload w = (Inr payload, w1)"
  using assms by (simp add: inject_out_of_order_def io_bind_def io_return_def)

subsection \<open>Runs of \<^verbatim>\<open>main\<close>\<close>












section \<open>Properties of the synthesizer and the session generator\<close>

text \<open>
  \<^bold>\<open>C6.\<close> Every call of \<^verbatim>\<open>generate_session_events\<close> that returns, returns a non-empty list whose
  first event has type \<^verbatim>\<open>page_view\<close>. The call returns whenever \<open>max_events\<close> is at least 1;
  below 1 it raises \<^verbatim>\<open>ValueError\<close> (from \<^verbatim>\<open>random.randint(1, max_events)\<close>) and returns no
  sequence at all.
\<close>

theorem session_first_event_page_view:
  "(1 \<le> m \<longrightarrow> (\<exists>evs w'. generate_session_events uid m w = (Inr evs, w'))) \<and>
   (m < 1 \<longrightarrow> fst (generate_session_events uid m w) = Inl ValueError) \<and>
   (\<forall>evs w'. generate_session_events uid m w = (Inr evs, w') \<longrightarrow>
      evs \<noteq> [] \<and> event_type (hd evs) = ''page_view'')"
  using generate_session_events_ok[of m uid w] generate_session_events_ValueError[of m uid w]
    generate_session_events_first[of uid m w]
  by blast

theorem session_first_event_page_view_witness:
  "\<exists>evs w'. generate_session_events ''usr_0123456789abcdef'' 12 demo_world = (Inr evs, w') \<and>
      evs \<noteq> [] \<and> event_type (hd evs) = ''page_view''"
  using session_first_event_page_view[of 12 "''usr_0123456789abcdef''" demo_world]
  by auto

text \<open>
  \<^bold>\<open>C7.\<close> The attributes of an event of type \<^verbatim>\<open>purchase\<close> have the keys
  \<^verbatim>\<open>ab_test_variant\<close>, \<^verbatim>\<open>utm_campaign\<close>, the four commerce keys \<^verbatim>\<open>product_id\<close>, \<^verbatim>\<open>price\<close>,
  \<^verbatim>\<open>currency\<close>, \<^verbatim>\<open>quantity\<close>, and then \<^verbatim>\<open>order_id\<close> and \<^verbatim>\<open>payment_method\<close>: the keys of any
  \<^verbatim>\<open>add_to_cart\<close> event followed by these two, hence a strict superset of them.
\<close>

theorem purchase_attributes_superset:
  assumes "make_event uid sid t w = (Inr ev, w')" and "event_type ev = ''purchase''"
  shows "keys (attributes ev) =
           [''ab_test_variant'', ''utm_campaign'', ''product_id'', ''price'', ''currency'',
            ''quantity'', ''order_id'', ''payment_method''] \<and>
         (\<forall>uid2 sid2 t2 w2 ev2 w2'.
            make_event uid2 sid2 t2 w2 = (Inr ev2, w2') \<and> event_type ev2 = ''add_to_cart'' \<longrightarrow>
              keys (attributes ev) = keys (attributes ev2) @ [''order_id'', ''payment_method''] \<and>
              set (keys (attributes ev2)) \<subset> set (keys (attributes ev)))"
proof -
  from make_event_keys[OF assms(1)] assms(2)
  have p: "keys (attributes ev) =
           [''ab_test_variant'', ''utm_campaign'', ''product_id'', ''price'', ''currency'',
            ''quantity'', ''order_id'', ''payment_method'']" by simp
  have "keys (attributes ev) = keys (attributes ev2) @ [''order_id'', ''payment_method''] \<and>
        set (keys (attributes ev2)) \<subset> set (keys (attributes ev))"
    if "make_event uid2 sid2 t2 w2 = (Inr ev2, w2')" "event_type ev2 = ''add_to_cart''"
    for uid2 sid2 t2 w2 ev2 w2'
  proof -
    from make_event_keys[OF that(1)] that(2)
    have c: "keys (attributes ev2) =
           [''ab_test_variant'', ''utm_campaign'', ''product_id'', ''price'', ''currency'',
            ''quantity'']" by simp
    have e: "keys (attributes ev) = keys (attributes ev2) @ [''order_id'', ''payment_method'']"
      by (simp add: p c)
    have "''order_id'' \<notin> set (keys (attributes ev2))"
      by (simp add: c)
    moreover have "''order_id'' \<in> set (keys (attributes ev))"
      by (simp add: e)
    moreover have "set (keys (attributes ev2)) \<subseteq> set (keys (attributes ev))"
      by (simp add: e) blast
    ultimately show ?thesis using e by blast
  qed
  with p show ?thesis by blast
qed

theorem purchase_attributes_superset_witness:
  "\<exists>ev w' ev2 w2'.
     make_event ''usr_1'' ''sess_1'' (Some ''purchase'') demo_world = (Inr ev, w') \<and>
     make_event ''usr_1'' ''sess_1'' (Some ''add_to_cart'') w' = (Inr ev2, w2') \<and>
     event_type ev = ''purchase'' \<and> event_type ev2 = ''add_to_cart'' \<and>
     keys (attributes ev) = keys (attributes ev2) @ [''order_id'', ''payment_method''] \<and>
     set (keys (attributes ev2)) \<subset> set (keys (attributes ev))"
proof -
  obtain ev w' where 1: "make_event ''usr_1'' ''sess_1'' (Some ''purchase'') demo_world = (Inr ev, w')"
    using make_event_total by blast
  obtain ev2 w2' where 2: "make_event ''usr_1'' ''sess_1'' (Some ''add_to_cart'') w' = (Inr ev2, w2')"
    using make_event_total by blast
  have 3: "event_type ev = ''purchase''" using make_event_type[OF 1] by simp
  have 4: "event_type ev2 = ''add_to_cart''" using make_event_type[OF 2] by simp
  from purchase_attributes_superset[OF 1 3] 1 2 3 4 show ?thesis by blast
qed



section \<open>Properties of the emission loop and of \<^verbatim>\<open>main\<close>\<close>

text \<open>
  \<^bold>\<open>C1.\<close> When the duplicate branch of an emission is taken (the window is not empty and the
  draw of \<^verbatim>\<open>random.random()\<close> that follows the out-of-order step is below \<open>dup_rate\<close>), the
  record emitted is the window entry at the index \<^verbatim>\<open>random.choice\<close> draws, unchanged in every
  field, whatever the freshly synthesized record was. For a whole run of the loop from the
  empty window: the window only ever holds records that were emitted, it is non-empty exactly
  when a record has been emitted, and with \<open>dup_rate \<ge> 1\<close> every record emitted equals the
  first one.
\<close>

theorem duplicate_reemits_window_record:
  "(inject_out_of_order a (asdict ev) w = (Inr p1, w1) \<and> previously_emitted l \<noteq> [] \<and>
      random w1 = (Inr u, w2) \<and> u < dup_rate a \<longrightarrow>
      (\<exists>i w'. i = rand_tape w2 0 mod length (previously_emitted l) \<and>
         i < length (previously_emitted l) \<and>
         emit_one a fh ev l w =
           (Inr (l\<lparr>previously_emitted :=
                      remember (previously_emitted l) (previously_emitted l ! i),
                    emitted := emitted l + 1\<rparr>), w') \<and>
         dest_lines fh w' = dest_lines fh w @ [json_line (previously_emitted l ! i)])) \<and>
   (emit_loop a fh \<lparr>previously_emitted = [], emitted = 0\<rparr> w0 = (Inr l', w0') \<longrightarrow>
      (\<exists>ps. dest_lines fh w0' = dest_lines fh w0 @ map json_line ps \<and>
         set (previously_emitted l') \<subseteq> set ps \<and>
         (previously_emitted l' \<noteq> [] \<longleftrightarrow> 0 < emitted l') \<and>
         (1 \<le> dup_rate a \<longrightarrow> (\<forall>j < length ps. ps ! j = ps ! 0))))"
proof (intro conjI impI)
  assume h: "inject_out_of_order a (asdict ev) w = (Inr p1, w1) \<and> previously_emitted l \<noteq> [] \<and>
      random w1 = (Inr u, w2) \<and> u < dup_rate a"
  then have ne: "previously_emitted l \<noteq> []" by simp
  from h emit_one_dup[of a ev w p1 w1 l u w2 fh] obtain w' where
    "emit_one a fh ev l w =
           (Inr (l\<lparr>previously_emitted := remember (previously_emitted l)
                     (previously_emitted l ! (rand_tape w2 0 mod length (previously_emitted l))),
                   emitted := emitted l + 1\<rparr>), w')"
    "dest_lines fh w' = dest_lines fh w @
           [json_line (previously_emitted l ! (rand_tape w2 0 mod length (previously_emitted l)))]"
    by blast
  moreover from ne have "rand_tape w2 0 mod length (previously_emitted l) < length (previously_emitted l)"
    by simp
  ultimately show "\<exists>i w'. i = rand_tape w2 0 mod length (previously_emitted l) \<and>
         i < length (previously_emitted l) \<and>
         emit_one a fh ev l w =
           (Inr (l\<lparr>previously_emitted :=
                      remember (previously_emitted l) (previously_emitted l ! i),
                    emitted := emitted l + 1\<rparr>), w') \<and>
         dest_lines fh w' = dest_lines fh w @ [json_line (previously_emitted l ! i)]"
    by blast
next
  assume "emit_loop a fh \<lparr>previously_emitted = [], emitted = 0\<rparr> w0 = (Inr l', w0')"
  from emit_loop_run[OF this] obtain ps where
    t: "run_trace a fh \<lparr>previously_emitted = [], emitted = 0\<rparr> w0 ps l' w0'" by blast
  then have w: "previously_emitted l' = foldl remember [] ps" and e: "emitted l' = int (length ps)"
    and d: "dest_lines fh w0' = dest_lines fh w0 @ map json_line ps"
    and o: "1 \<le> dup_rate a \<longrightarrow> only_dups [] ps"
    by (simp_all add: run_trace_def)
  from set_foldl_remember[of "[]" ps] w have "set (previously_emitted l') \<subseteq> set ps" by simp
  moreover from foldl_remember_Nil_iff[of "[]" ps] w e
  have "previously_emitted l' \<noteq> [] \<longleftrightarrow> 0 < emitted l'" by simp
  moreover from o only_dups_from_empty
  have "1 \<le> dup_rate a \<longrightarrow> (\<forall>j < length ps. ps ! j = ps ! 0)" by blast
  ultimately show "\<exists>ps. dest_lines fh w0' = dest_lines fh w0 @ map json_line ps \<and>
         set (previously_emitted l') \<subseteq> set ps \<and>
         (previously_emitted l' \<noteq> [] \<longleftrightarrow> 0 < emitted l') \<and>
         (1 \<le> dup_rate a \<longrightarrow> (\<forall>j < length ps. ps ! j = ps ! 0))"
    using d by blast
qed

theorem duplicate_reemits_window_record_witness:
  "\<exists>w'. emit_one (default_args\<lparr>dup_rate := 1\<rparr>) None
           (demo_event\<lparr>event_id := ''fresh''\<rparr>)
           \<lparr>previously_emitted = [demo_event], emitted = 1\<rparr> demo_world =
          (Inr \<lparr>previously_emitted = [demo_event, demo_event], emitted = 2\<rparr>, w') \<and>
        dest_lines None w' = dest_lines None demo_world @ [json_line demo_event]"
proof -
  let ?a = "default_args\<lparr>dup_rate := 1\<rparr>"
  let ?ev = "demo_event\<lparr>event_id := ''fresh''\<rparr>"
  let ?l = "\<lparr>previously_emitted = [demo_event], emitted = 1\<rparr>"
  obtain p1 w1 where 1: "inject_out_of_order ?a (asdict ?ev) demo_world = (Inr p1, w1)"
    using inject_out_of_order_ok by blast
  obtain u w2 where 2: "random w1 = (Inr u, w2)"
    using random_ok by blast
  from random_less_1[OF 2] have 3: "u < dup_rate ?a" by simp
  from duplicate_reemits_window_record[of ?a ?ev demo_world p1 w1 ?l u w2 None] 1 2 3
  show ?thesis by (auto simp: remember_def)
qed

text \<open>
  \<^bold>\<open>C9.\<close> When the duplicate branch is taken, the emission does not depend on the fresh record
  at all (so an out-of-order timestamp given to it is lost with it): the line emitted is the
  chosen window entry, and that entry is appended to the window again. Below the truncation
  bound the window then holds it in two slots.
\<close>

theorem duplicate_replaces_fresh_record:
  assumes oo: "inject_out_of_order a (asdict ev) w = (Inr p1, w1)"
    and ne: "previously_emitted l \<noteq> []"
    and draw: "random w1 = (Inr u, w2)" and lt: "u < dup_rate a"
  shows "(\<forall>ev'. emit_one a fh ev' l w = emit_one a fh ev l w) \<and>
         (\<exists>i l' w'. i < length (previously_emitted l) \<and>
            emit_one a fh ev l w = (Inr l', w') \<and>
            dest_lines fh w' = dest_lines fh w @ [json_line (previously_emitted l ! i)] \<and>
            previously_emitted l' = remember (previously_emitted l) (previously_emitted l ! i) \<and>
            (length (previously_emitted l) < 5000 \<longrightarrow>
               previously_emitted l' = previously_emitted l @ [previously_emitted l ! i] \<and>
               previously_emitted l' ! i = previously_emitted l' ! length (previously_emitted l)))"
proof
  show "\<forall>ev'. emit_one a fh ev' l w = emit_one a fh ev l w"
  proof
    fix ev'
    obtain p1' w1' where oo': "inject_out_of_order a (asdict ev') w = (Inr p1', w1')"
      using inject_out_of_order_ok by blast
    from inject_out_of_order_world[of a "asdict ev'" w "asdict ev"] oo oo'
    have "w1' = w1" by simp
    with oo' have oo'': "inject_out_of_order a (asdict ev') w = (Inr p1', w1)" by simp
    note d = inject_duplicate_taken[OF ne draw lt]
    from emit_one_eq[OF oo d, of fh] emit_one_eq[OF oo'' d, of fh]
    show "emit_one a fh ev' l w = emit_one a fh ev l w" by simp
  qed
next
  let ?i = "rand_tape w2 0 mod length (previously_emitted l)"
  from ne have i: "?i < length (previously_emitted l)" by simp
  from emit_one_dup[OF oo ne draw lt, of fh] obtain w' where
    e: "emit_one a fh ev l w =
          (Inr (l\<lparr>previously_emitted := remember (previously_emitted l) (previously_emitted l ! ?i),
                  emitted := emitted l + 1\<rparr>), w')"
    and d: "dest_lines fh w' = dest_lines fh w @ [json_line (previously_emitted l ! ?i)]"
    by blast
  have "length (previously_emitted l) < 5000 \<longrightarrow>
      remember (previously_emitted l) (previously_emitted l ! ?i)
        = previously_emitted l @ [previously_emitted l ! ?i] \<and>
      remember (previously_emitted l) (previously_emitted l ! ?i) ! ?i =
      remember (previously_emitted l) (previously_emitted l ! ?i) ! length (previously_emitted l)"
    using i by (simp add: remember_keep nth_append)
  with i e d show "\<exists>i l' w'. i < length (previously_emitted l) \<and>
            emit_one a fh ev l w = (Inr l', w') \<and>
            dest_lines fh w' = dest_lines fh w @ [json_line (previously_emitted l ! i)] \<and>
            previously_emitted l' = remember (previously_emitted l) (previously_emitted l ! i) \<and>
            (length (previously_emitted l) < 5000 \<longrightarrow>
               previously_emitted l' = previously_emitted l @ [previously_emitted l ! i] \<and>
               previously_emitted l' ! i = previously_emitted l' ! length (previously_emitted l))"
    by (intro exI[of _ ?i] exI[of _ "l\<lparr>previously_emitted :=
          remember (previously_emitted l) (previously_emitted l ! ?i), emitted := emitted l + 1\<rparr>"]
        exI[of _ w']) (simp add: nth_append)
qed

theorem duplicate_replaces_fresh_record_witness:
  "\<exists>l' w'. emit_one (default_args\<lparr>dup_rate := 1, oo_rate := 1\<rparr>) None
           (demo_event\<lparr>event_id := ''fresh''\<rparr>)
           \<lparr>previously_emitted = [demo_event], emitted = 1\<rparr> demo_world = (Inr l', w') \<and>
        previously_emitted l' = [demo_event, demo_event] \<and>
        dest_lines None w' = dest_lines None demo_world @ [json_line demo_event]"
proof -
  let ?a = "default_args\<lparr>dup_rate := 1, oo_rate := 1\<rparr>"
  let ?ev = "demo_event\<lparr>event_id := ''fresh''\<rparr>"
  let ?l = "\<lparr>previously_emitted = [demo_event], emitted = 1\<rparr>"
  obtain p1 w1 where 1: "inject_out_of_order ?a (asdict ?ev) demo_world = (Inr p1, w1)"
    using inject_out_of_order_ok by blast
  obtain u w2 where 2: "random w1 = (Inr u, w2)"
    using random_ok by blast
  from random_less_1[OF 2] have 3: "u < dup_rate ?a" by simp
  have 4: "previously_emitted ?l \<noteq> []" by simp
  from duplicate_replaces_fresh_record[OF 1 4 2 3, of None]
  show ?thesis by (auto simp: remember_def)
qed

text \<open>
  \<^bold>\<open>C2.\<close> The out-of-order step draws \<open>u\<close> from \<^verbatim>\<open>random.random()\<close> and fires exactly when
  \<open>u < oo_rate\<close>, that is for \<open>\<lceil>oo_rate \<sqdot> 2\<^sup>5\<^sup>3\<rceil>\<close> of the \<open>2\<^sup>5\<^sup>3\<close> values of the draw, and always
  when \<open>oo_rate \<ge> 1\<close>. When it fires, \<^verbatim>\<open>event_ts\<close> becomes the clock reading of this emission
  moved back by \<open>k\<close> seconds, \<open>k\<close> drawn by \<^verbatim>\<open>random.randint(60, 3600)\<close>; otherwise the payload
  is unchanged. The duplicate check of the same emission runs on the result of this step.
\<close>

theorem out_of_order_shift:
  assumes "random w = (Inr u, w1)"
  shows "(u < oo_rate a \<longleftrightarrow>
            int (rand_tape w 0 mod 9007199254740992) < \<lceil>oo_rate a * 9007199254740992\<rceil>) \<and>
         (1 \<le> oo_rate a \<longrightarrow> u < oo_rate a) \<and>
         (u < oo_rate a \<longrightarrow>
            (\<exists>k w'. k = 60 + int (rand_tape w1 0 mod 3541) \<and> 60 \<le> k \<and> k \<le> 3600 \<and>
               inject_out_of_order a payload w =
                 (Inr (payload\<lparr>event_ts := isoformat_ms (clock_tape w 0) - 1000 * k\<rparr>), w'))) \<and>
         (\<not> u < oo_rate a \<longrightarrow> inject_out_of_order a payload w = (Inr payload, w1)) \<and>
         (\<forall>fh ev l p1 w1' p w2.
            inject_out_of_order a (asdict ev) w = (Inr p1, w1') \<and>
            inject_duplicate a (previously_emitted l) p1 w1' = (Inr p, w2) \<longrightarrow>
              fst (emit_one a fh ev l w) =
                Inr (l\<lparr>previously_emitted := remember (previously_emitted l) p,
                        emitted := emitted l + 1\<rparr>))"
proof (intro conjI impI allI)
  show "u < oo_rate a \<longleftrightarrow>
      int (rand_tape w 0 mod 9007199254740992) < \<lceil>oo_rate a * 9007199254740992\<rceil>"
    by (rule random_fires_iff[OF assms])
next
  assume "1 \<le> oo_rate a"
  with random_less_1[OF assms] show "u < oo_rate a" by simp
next
  assume "u < oo_rate a"
  from inject_out_of_order_taken[OF assms this, of payload]
  show "\<exists>k w'. k = 60 + int (rand_tape w1 0 mod 3541) \<and> 60 \<le> k \<and> k \<le> 3600 \<and>
      inject_out_of_order a payload w =
        (Inr (payload\<lparr>event_ts := isoformat_ms (clock_tape w 0) - 1000 * k\<rparr>), w')"
    by (intro exI[of _ "60 + int (rand_tape w1 0 mod 3541)"] exI conjI) (simp, simp, simp, assumption)
next
  assume "\<not> u < oo_rate a"
  then show "inject_out_of_order a payload w = (Inr payload, w1)"
    by (rule inject_out_of_order_skipped[OF assms])
next
  fix fh :: "string option" and ev :: ClickstreamEvent and l :: locals
    and p1 p :: payload and w1' w2 :: world
  assume "inject_out_of_order a (asdict ev) w = (Inr p1, w1') \<and>
          inject_duplicate a (previously_emitted l) p1 w1' = (Inr p, w2)"
  then have 1: "inject_out_of_order a (asdict ev) w = (Inr p1, w1')"
    and 2: "inject_duplicate a (previously_emitted l) p1 w1' = (Inr p, w2)" by simp_all
  from emit_one_eq[OF 1 2, of fh]
  show "fst (emit_one a fh ev l w) =
      Inr (l\<lparr>previously_emitted := remember (previously_emitted l) p, emitted := emitted l + 1\<rparr>)"
    by simp
qed

theorem out_of_order_shift_witness:
  "\<exists>k w'. 60 \<le> k \<and> k \<le> 3600 \<and>
     inject_out_of_order (default_args\<lparr>oo_rate := 1\<rparr>) demo_event demo_world =
       (Inr (demo_event\<lparr>event_ts := 1700000000123 - 1000 * k\<rparr>), w')"
proof -
  obtain u w1 where 1: "random demo_world = (Inr u, w1)"
    using random_ok by blast
  have 2: "isoformat_ms (clock_tape demo_world 0) = 1700000000123"
    by (simp add: isoformat_ms_def demo_world_def)
  note t = out_of_order_shift[OF 1, of "default_args\<lparr>oo_rate := 1\<rparr>" demo_event]
  from t have "u < oo_rate (default_args\<lparr>oo_rate := 1\<rparr>)" by simp
  with t obtain k w' where "60 \<le> k" "k \<le> 3600"
    "inject_out_of_order (default_args\<lparr>oo_rate := 1\<rparr>) demo_event demo_world =
       (Inr (demo_event\<lparr>event_ts := isoformat_ms (clock_tape demo_world 0) - 1000 * k\<rparr>), w')"
    by blast
  with 2 show ?thesis by auto
qed

text \<open>
  \<^bold>\<open>C3.\<close> Every emission appends the emitted payload to the window; when that makes more than
  5000 entries the window is cut to its last 2000. So a window of at most 5000 entries stays
  at most 5000 entries long, and after a complete run of \<open>N\<close> emissions from the empty window
  its length is \<open>N\<close> up to 5000 and \<open>2000 + (N - 5001) mod 3001\<close> beyond: 2000 right after the
  5001st emission.
\<close>

theorem window_truncation_policy:
  "(emit_one a fh ev l w = (Inr l', w') \<longrightarrow>
      (\<exists>p. previously_emitted l' = remember (previously_emitted l) p \<and>
         (length (previously_emitted l) < 5000 \<longrightarrow>
            previously_emitted l' = previously_emitted l @ [p]) \<and>
         (5000 \<le> length (previously_emitted l) \<longrightarrow>
            previously_emitted l' =
              drop (length (previously_emitted l) - 1999) (previously_emitted l @ [p]) \<and>
            length (previously_emitted l') = 2000) \<and>
         (length (previously_emitted l) \<le> 5000 \<longrightarrow> length (previously_emitted l') \<le> 5000))) \<and>
   (1 \<le> max_events_per_session a \<longrightarrow>
      (\<exists>l' w'. emit_loop a fh \<lparr>previously_emitted = [], emitted = 0\<rparr> w = (Inr l', w') \<and>
         emitted l' = max 0 (events a) \<and>
         length (previously_emitted l') =
           (if events a \<le> 5000 then nat (events a)
            else 2000 + (nat (events a) - 5001) mod 3001) \<and>
         length (previously_emitted l') \<le> 5000 \<and>
         (events a = 5001 \<longrightarrow> length (previously_emitted l') = 2000)))"
proof (intro conjI impI)
  assume "emit_one a fh ev l w = (Inr l', w')"
  with emit_one_ok[of a fh ev l w] obtain p where
    p: "previously_emitted l' = remember (previously_emitted l) p" by auto
  show "\<exists>p. previously_emitted l' = remember (previously_emitted l) p \<and>
         (length (previously_emitted l) < 5000 \<longrightarrow>
            previously_emitted l' = previously_emitted l @ [p]) \<and>
         (5000 \<le> length (previously_emitted l) \<longrightarrow>
            previously_emitted l' =
              drop (length (previously_emitted l) - 1999) (previously_emitted l @ [p]) \<and>
            length (previously_emitted l') = 2000) \<and>
         (length (previously_emitted l) \<le> 5000 \<longrightarrow> length (previously_emitted l') \<le> 5000)"
  proof (intro exI[of _ p] conjI impI)
    show "previously_emitted l' = remember (previously_emitted l) p" by (rule p)
  next
    assume "length (previously_emitted l) < 5000"
    then show "previously_emitted l' = previously_emitted l @ [p]"
      unfolding p by (rule remember_keep)
  next
    assume "5000 \<le> length (previously_emitted l)"
    then show "previously_emitted l' =
        drop (length (previously_emitted l) - 1999) (previously_emitted l @ [p])"
      unfolding p by (rule remember_truncate)
  next
    assume "5000 \<le> length (previously_emitted l)"
    then show "length (previously_emitted l') = 2000"
      unfolding p by (simp add: length_remember)
  next
    assume "length (previously_emitted l) \<le> 5000"
    then show "length (previously_emitted l') \<le> 5000"
      unfolding p by (simp add: length_remember)
  qed
next
  assume m: "1 \<le> max_events_per_session a"
  from emit_loop_ok[OF m] obtain l' w' where
    r: "emit_loop a fh \<lparr>previously_emitted = [], emitted = 0\<rparr> w = (Inr l', w')" by blast
  from emit_loop_run[OF r] obtain ps where
    t: "run_trace a fh \<lparr>previously_emitted = [], emitted = 0\<rparr> w ps l' w'"
    and e: "emitted l' = max 0 (events a)" by auto
  from t have wd: "previously_emitted l' = foldl remember [] ps"
    and n: "emitted l' = int (length ps)" by (simp_all add: run_trace_def)
  from e n have len: "length ps = nat (events a)" by simp
  have L: "length (previously_emitted l') =
           (if events a \<le> 5000 then nat (events a)
            else 2000 + (nat (events a) - 5001) mod 3001)"
    unfolding wd length_foldl_remember len by auto
  have b: "(nat (events a) - 5001) mod 3001 < 3001" by simp
  from L b have "length (previously_emitted l') \<le> 5000" by (auto split: if_splits)
  moreover from L have "events a = 5001 \<longrightarrow> length (previously_emitted l') = 2000" by simp
  ultimately show "\<exists>l' w'. emit_loop a fh \<lparr>previously_emitted = [], emitted = 0\<rparr> w = (Inr l', w') \<and>
         emitted l' = max 0 (events a) \<and>
         length (previously_emitted l') =
           (if events a \<le> 5000 then nat (events a)
            else 2000 + (nat (events a) - 5001) mod 3001) \<and>
         length (previously_emitted l') \<le> 5000 \<and>
         (events a = 5001 \<longrightarrow> length (previously_emitted l') = 2000)"
    using r e L by blast
qed

theorem window_truncation_policy_witness:
  "\<exists>l' w'. emit_loop (default_args\<lparr>events := 5001\<rparr>) None
              \<lparr>previously_emitted = [], emitted = 0\<rparr> demo_world = (Inr l', w') \<and>
     emitted l' = 5001 \<and> length (previously_emitted l') = 2000"
proof -
  let ?a = "default_args\<lparr>events := 5001\<rparr>"
  have m: "1 \<le> max_events_per_session ?a" by (simp add: default_args_def)
  from window_truncation_policy[of ?a None demo_event
      "\<lparr>previously_emitted = [], emitted = 0\<rparr>" demo_world] m
  obtain l' w' where
    "emit_loop ?a None \<lparr>previously_emitted = [], emitted = 0\<rparr> demo_world = (Inr l', w')"
    "emitted l' = max 0 (events ?a)"
    "events ?a = 5001 \<longrightarrow> length (previously_emitted l') = 2000"
    by blast
  then show ?thesis by (intro exI[of _ l'] exI[of _ w']) simp
qed

text \<open>
  \<^bold>\<open>C10.\<close> For an output path without a slash, other than \<^verbatim>\<open>"-"\<close>, \<^verbatim>\<open>os.path.dirname\<close> is the
  empty string, \<^verbatim>\<open>os.makedirs\<close> raises \<^verbatim>\<open>FileNotFoundError\<close>, and \<^verbatim>\<open>main\<close> ends with this exception
  having printed only its first line: no file is opened and no record is emitted, whether or
  not the path could be written.
\<close>

theorem bare_filename_raises:
  assumes "CHR ''/'' \<notin> set (out a)" and "out a \<noteq> ''-''"
  shows "main a w = (Inl FileNotFoundError, w\<lparr>stdout := stdout w @ [Print_args a]\<rparr>) \<and>
         exit_code (fst (main a w)) = 1"
proof -
  from open_output_bare[OF assms(2,1), of "w\<lparr>stdout := stdout w @ [Print_args a]\<rparr>"]
  have "main a w = (Inl FileNotFoundError, w\<lparr>stdout := stdout w @ [Print_args a]\<rparr>)"
    by (simp add: main_eq)
  then show ?thesis by (simp add: exit_code_def)
qed

theorem bare_filename_raises_witness:
  "open_ok demo_world ''events.jsonl'' \<and>
   main (default_args\<lparr>out := ''events.jsonl''\<rparr>) demo_world =
     (Inl FileNotFoundError,
      demo_world\<lparr>stdout := [Print_args (default_args\<lparr>out := ''events.jsonl''\<rparr>)]\<rparr>) \<and>
   exit_code (fst (main (default_args\<lparr>out := ''events.jsonl''\<rparr>) demo_world)) = 1"
proof -
  let ?a = "default_args\<lparr>out := ''events.jsonl''\<rparr>"
  have 1: "CHR ''/'' \<notin> set (out ?a)" and 2: "out ?a \<noteq> ''-''" by simp_all
  have 3: "open_ok demo_world ''events.jsonl''" by (simp add: demo_world_def)
  have 4: "stdout demo_world = []" by (simp add: demo_world_def)
  from bare_filename_raises[OF 1 2, of demo_world] 3 4 show ?thesis
    by (simp add: exit_code_def)
qed







end
